theory Spec2Isabelle
  imports Main "HOL-Library.Sublist"
begin

section \<open>Text primitives of the host language\<close>

text \<open>
  A Python \<open>str\<close> is modelled as a HOL \<open>string\<close>, one \<open>char\<close> per code point, so
  the model covers texts whose code points lie below U+0100. The two character classes
  the analyzers rely on are written out for that range as CPython defines them:
  \<open>is_space\<close> is \<open>str.isspace\<close> (used by \<open>strip\<close>, \<open>lstrip\<close> and the pattern \<open>\s\<close>),
  \<open>is_word\<close> is the pattern class \<open>\w\<close> (alphanumeric or underscore).
\<close>

definition is_space :: "char \<Rightarrow> bool" where
  "is_space c =
     (let n = (of_char c :: nat)
      in (9 \<le> n \<and> n \<le> 13) \<or> (28 \<le> n \<and> n \<le> 32) \<or> n = 133 \<or> n = 160)"

definition is_word :: "char \<Rightarrow> bool" where
  "is_word c =
     (let n = (of_char c :: nat)
      in (48 \<le> n \<and> n \<le> 57) \<or> (65 \<le> n \<and> n \<le> 90) \<or> n = 95 \<or> (97 \<le> n \<and> n \<le> 122) \<or>
         n = 170 \<or> n = 178 \<or> n = 179 \<or> n = 181 \<or> n = 185 \<or> n = 186 \<or>
         (188 \<le> n \<and> n \<le> 190) \<or> (192 \<le> n \<and> n \<le> 214) \<or> (216 \<le> n \<and> n \<le> 246) \<or>
         (248 \<le> n \<and> n \<le> 255))"

text \<open>
  \<open>code.split('\n')\<close>: the pieces between newlines, the empty text giving one empty line.
  \<open>split_from cur s\<close> holds the piece read so far (reversed) in \<open>cur\<close>.
\<close>

fun split_from :: "string \<Rightarrow> string \<Rightarrow> string list" where
  "split_from cur [] = [rev cur]"
| "split_from cur (c # cs) =
     (if c = CHR 0x0A then rev cur # split_from [] cs else split_from (c # cur) cs)"

definition split_newline :: "string \<Rightarrow> string list" where
  "split_newline s = split_from [] s"

definition lstrip :: "string \<Rightarrow> string" where
  "lstrip s = dropWhile is_space s"

definition strip :: "string \<Rightarrow> string" where
  "strip s = rev (dropWhile is_space (rev (dropWhile is_space s)))"

text \<open>\<open>str(n)\<close> for a natural number and for an integer, in decimal.\<close>

fun str_of_nat :: "nat \<Rightarrow> string" where
  "str_of_nat n =
     (if n < 10 then [char_of (48 + n)]
      else str_of_nat (n div 10) @ [char_of (48 + n mod 10)])"

definition str_of_int :: "int \<Rightarrow> string" where
  "str_of_int k = (if k < 0 then CHR ''-'' # str_of_nat (nat (- k)) else str_of_nat (nat k))"

subsection \<open>The regular expressions of the analyzers\<close>

text \<open>
  A pattern is tried at every position of the text from left to right. A position is
  given by the rest of the text from there on and by whether the character before it is a
  word character (\<open>False\<close> at the start of the text). \<open>\b\<close> holds where exactly one of the
  two neighbours is a word character.
\<close>

definition starts_with_word :: "string \<Rightarrow> bool" where
  "starts_with_word s = (case s of [] \<Rightarrow> False | c # _ \<Rightarrow> is_word c)"

definition word_boundary :: "bool \<Rightarrow> string \<Rightarrow> bool" where
  "word_boundary pw s = (pw \<noteq> starts_with_word s)"

fun re_search :: "(bool \<Rightarrow> string \<Rightarrow> bool) \<Rightarrow> bool \<Rightarrow> string \<Rightarrow> bool" where
  "re_search at pw [] = at pw []"
| "re_search at pw (c # cs) = (at pw (c # cs) \<or> re_search at (is_word c) cs)"

text \<open>\<open>\b(if|for|while|switch|case)\b\<close>, the alternatives tried in this order.\<close>

definition control_keywords :: "string list" where
  "control_keywords = [''if'', ''for'', ''while'', ''switch'', ''case'']"

definition keyword_at :: "bool \<Rightarrow> string \<Rightarrow> string \<Rightarrow> bool" where
  "keyword_at pw kw s =
     (word_boundary pw s \<and> prefix kw s \<and> word_boundary (is_word (last kw)) (drop (length kw) s))"

definition match_control :: "bool \<Rightarrow> string \<Rightarrow> string option" where
  "match_control pw s =
     (case filter (\<lambda>kw. keyword_at pw kw s) control_keywords of
        [] \<Rightarrow> None
      | kw # _ \<Rightarrow> Some kw)"

text \<open>
  \<open>len(re.findall(...))\<close>: the number of non-overlapping matches; after a match the scan
  goes on behind it.
\<close>

fun findall_control :: "bool \<Rightarrow> string \<Rightarrow> nat" where
  "findall_control pw [] = 0"
| "findall_control pw (c # cs) =
     (case match_control pw (c # cs) of
        Some kw \<Rightarrow> Suc (findall_control (is_word (last kw)) (drop (length kw - 1) cs))
      | None \<Rightarrow> findall_control (is_word c) cs)"

text \<open>\<open>\b(print|console\.log)\(\<close>\<close>

definition debug_call_at :: "bool \<Rightarrow> string \<Rightarrow> bool" where
  "debug_call_at pw s =
     (word_boundary pw s \<and> (prefix ''print('' s \<or> prefix ''console.log('' s))"

text \<open>
  \<open>\b[a-z]\s*=\s*\<close>: a lower-case letter at a word boundary, any whitespace, an equals
  sign (the trailing \<open>\s*\<close> also matches nothing).
\<close>

definition is_lower :: "char \<Rightarrow> bool" where
  "is_lower c = (97 \<le> (of_char c :: nat) \<and> (of_char c :: nat) \<le> 122)"

definition short_var_at :: "bool \<Rightarrow> string \<Rightarrow> bool" where
  "short_var_at pw s =
     (word_boundary pw s \<and>
      (case s of
         [] \<Rightarrow> False
       | c # cs \<Rightarrow> is_lower c \<and>
           (case dropWhile is_space cs of [] \<Rightarrow> False | d # _ \<Rightarrow> d = CHR ''='')))"

definition length_findall_control :: "string \<Rightarrow> nat" where
  "length_findall_control code = findall_control False code"

section \<open>Complexity analyzer\<close>

record complexity =
  total_lines :: nat
  code_lines :: nat
  max_nesting :: nat
  control_structures :: nat
  complexity_score :: int

fun nesting_loop :: "string list \<Rightarrow> nat \<Rightarrow> nat" where
  "nesting_loop [] max_nest = max_nest"
| "nesting_loop (line # rest) max_nest =
     (let indent = length line - length (lstrip line);
          current_nesting = indent div 4
      in nesting_loop rest (max max_nest current_nesting))"

definition analyze_code_complexity :: "string \<Rightarrow> complexity" where
  "analyze_code_complexity code =
     (let lines = split_newline code;
          non_empty_lines = filter (\<lambda>l. strip l \<noteq> []) lines;
          max_nest = nesting_loop lines 0;
          control_count = length_findall_control code
      in \<lparr> total_lines = length lines,
           code_lines = length non_empty_lines,
           max_nesting = max_nest,
           control_structures = control_count,
           complexity_score = min 100 (int max_nest * 10 + int control_count * 2) \<rparr>)"

section \<open>Payloads\<close>

text \<open>
  The analyzers hand the assembler a decoded JSON value: dictionaries, lists, strings,
  integers, booleans, \<open>None\<close> and floating-point numbers. A dictionary is the list of its
  items in insertion order, \<open>d.get(k)\<close> is \<open>map_of\<close>. Floating-point numbers are kept
  opaque: nothing in the model computes with them.
\<close>

typedecl pyfloat

instantiation pyfloat :: equal
begin

definition equal_pyfloat :: "pyfloat \<Rightarrow> pyfloat \<Rightarrow> bool" where
  "equal_pyfloat a b = (a = b)"

instance
  by standard (simp add: equal_pyfloat_def)

end

datatype json =
    JNull
  | JBool bool
  | JInt int
  | JFloat pyfloat
  | JStr string
  | JList "json list"
  | JObj "(string \<times> json) list"

text \<open>\<open>d.get(key, default)\<close>\<close>

definition dict_get :: "(string \<times> json) list \<Rightarrow> string \<Rightarrow> json \<Rightarrow> json" where
  "dict_get d k dflt = (case map_of d k of None \<Rightarrow> dflt | Some v \<Rightarrow> v)"

section \<open>Rule-based fallback analyzer\<close>

text \<open>The four issue dictionaries of \<open>generate_fallback_review\<close>, for line number \<open>i\<close>.\<close>

definition todo_issue :: "nat \<Rightarrow> json" where
  "todo_issue i = JObj
     [(''severity'', JStr ''low''),
      (''title'', JStr ''Unresolved TODO/FIXME''),
      (''description'',
         JStr (''Line '' @ str_of_nat i @ '' contains unresolved TODO or FIXME comment'')),
      (''line'', JInt (int i)),
      (''impact'', JStr ''Low''),
      (''fix_time'', JStr ''5 min''),
      (''business_impact'', JStr ''Code maintainability''),
      (''suggestion'', JStr ''Address the TODO or create a ticket to track it''),
      (''auto_fix_available'', JBool False)]"

definition debug_issue :: "nat \<Rightarrow> json" where
  "debug_issue i = JObj
     [(''severity'', JStr ''low''),
      (''title'', JStr ''Debug Statement Found''),
      (''description'',
         JStr (''Line '' @ str_of_nat i @ '' contains a print/log statement that should be removed'')),
      (''line'', JInt (int i)),
      (''impact'', JStr ''Low''),
      (''fix_time'', JStr ''1 min''),
      (''business_impact'', JStr ''Production logs pollution''),
      (''suggestion'', JStr ''Remove debug statement or use proper logging''),
      (''auto_fix_available'', JBool True)]"

definition short_var_issue :: "nat \<Rightarrow> json" where
  "short_var_issue i = JObj
     [(''severity'', JStr ''low''),
      (''title'', JStr ''Non-descriptive Variable Name''),
      (''description'', JStr (''Line '' @ str_of_nat i @ '' uses a single-letter variable name'')),
      (''line'', JInt (int i)),
      (''impact'', JStr ''Low''),
      (''fix_time'', JStr ''2 min''),
      (''business_impact'', JStr ''Code readability''),
      (''suggestion'', JStr ''Use a descriptive variable name''),
      (''auto_fix_available'', JBool False)]"

definition try_issue :: "nat \<Rightarrow> json" where
  "try_issue i = JObj
     [(''severity'', JStr ''medium''),
      (''title'', JStr ''Incomplete Error Handling''),
      (''description'', JStr (''Line '' @ str_of_nat i @ '' has try block without except clause'')),
      (''line'', JInt (int i)),
      (''impact'', JStr ''Medium''),
      (''fix_time'', JStr ''10 min''),
      (''business_impact'', JStr ''Potential unhandled exceptions''),
      (''suggestion'', JStr ''Add except clause with proper error handling''),
      (''auto_fix_available'', JBool True)]"

text \<open>
  The inner loop \<open>for j in range(i, min(i+20, len(lines)))\<close>: \<open>i\<close> is the 1-based number
  of the line with \<open>try:\<close>, so \<open>lines[i]\<close> is the line after it.
\<close>

definition has_except :: "string list \<Rightarrow> nat \<Rightarrow> bool" where
  "has_except lines i =
     list_ex (\<lambda>j. sublist ''except'' (lines ! j)) [i ..< min (i + 20) (length lines)]"

text \<open>The body of the scan loop: the issues appended for line \<open>i\<close>, in the order of the checks.\<close>

definition check_line :: "string list \<Rightarrow> nat \<Rightarrow> string \<Rightarrow> json list" where
  "check_line lines i line =
     (if sublist ''TODO'' line \<or> sublist ''FIXME'' line then [todo_issue i] else []) @
     (if re_search debug_call_at False line then [debug_issue i] else []) @
     (if re_search short_var_at False line \<and> \<not> sublist ''for'' line
      then [short_var_issue i] else []) @
     (if sublist ''try:'' line \<and> \<not> has_except lines i then [try_issue i] else [])"

text \<open>\<open>for i, line in enumerate(lines, 1)\<close>, with the list \<open>issues\<close> as accumulator.\<close>

fun scan_lines :: "string list \<Rightarrow> nat \<Rightarrow> string list \<Rightarrow> json list \<Rightarrow> json list" where
  "scan_lines lines i [] issues = issues"
| "scan_lines lines i (line # rest) issues =
     scan_lines lines (Suc i) rest (issues @ check_line lines i line)"

text \<open>The list \<open>issues\<close> when the scan loop has ended, before it is cut.\<close>

definition fallback_issues :: "string \<Rightarrow> json list" where
  "fallback_issues code = (let lines = split_newline code in scan_lines lines 1 lines [])"

text \<open>The list \<open>issues\<close> when the scan loop has gone through the first \<open>n\<close> lines.\<close>

definition issues_after_lines :: "string \<Rightarrow> nat \<Rightarrow> json list" where
  "issues_after_lines c n =
     (let lines = split_newline c in scan_lines lines 1 (take n lines) [])"

definition generate_fallback_review :: "string \<Rightarrow> string \<Rightarrow> json" where
  "generate_fallback_review code language =
     (let issues = fallback_issues code;
          cx = analyze_code_complexity code;
          sc = max 50 (100 - complexity_score cx)
      in JObj
        [(''score'', JInt sc),
         (''issues'', JList (take 10 issues)),
         (''metrics'', JObj
            [(''complexity'', JStr (if complexity_score cx < 50 then ''Medium'' else ''High'')),
             (''maintainability'', JStr ''Good''),
             (''security'', JStr ''Needs Review''),
             (''performance'', JStr ''Good'')]),
         (''team_insights'', JList
            [JStr ''Consider adding more comments for complex logic'',
             JStr ''Follow consistent naming conventions'',
             JStr ''Add unit tests for critical functions''])])"

section \<open>Generative analyzer\<close>

text \<open>
  Exceptions are values: a computation that may raise returns \<open>py_exception + 'a\<close>, with
  \<open>Inl\<close> for the exception.
\<close>

datatype py_exception =
    ServiceError
  | ValueError
  | JSONDecodeError
  | TypeError
  | AttributeError
  | ValidationError

definition and_then :: "'e + 'a \<Rightarrow> ('a \<Rightarrow> 'e + 'b) \<Rightarrow> 'e + 'b" where
  "and_then r f = (case r of Inl e \<Rightarrow> Inl e | Inr x \<Rightarrow> f x)"

text \<open>
  The completion service is outside the program. Its part in one request is the outcome
  of the call: either the call, or reading the text out of its response, raised, or it
  produced the text \<open>content\<close>.
\<close>

datatype completion = CallRaised | ResponseContent string

text \<open>
  \<open>re.search(r'\{.*\}', content, re.DOTALL)\<close>: the match starts at the first opening
  brace that has a closing brace behind it and, the star being greedy and the dot matching
  every character, ends at the last closing brace.
\<close>

definition json_match :: "string \<Rightarrow> string option" where
  "json_match content =
     (let t = dropWhile (\<lambda>c. c \<noteq> CHR ''{'') content
      in if t \<noteq> [] \<and> CHR ''}'' \<in> set (tl t)
         then Some (rev (dropWhile (\<lambda>c. c \<noteq> CHR ''}'') (rev t)))
         else None)"

text \<open>
  The body of the \<open>try\<close> block. \<open>loads\<close> is the JSON decoder of the standard library,
  \<open>None\<close> where it raises.
\<close>

definition llm_try :: "(string \<Rightarrow> json option) \<Rightarrow> completion \<Rightarrow> py_exception + json" where
  "llm_try loads outcome =
     (case outcome of
        CallRaised \<Rightarrow> Inl ServiceError
      | ResponseContent content \<Rightarrow>
          (case json_match content of
             Some m \<Rightarrow> (case loads m of Some result \<Rightarrow> Inr result | None \<Rightarrow> Inl JSONDecodeError)
           | None \<Rightarrow> Inl ValueError))"

text \<open>
  \<open>except Exception\<close> catches whatever the body raised and returns the fallback review.
  The prompt (and with it the team context) only reaches the service, so it has no part
  in the model.
\<close>

definition generate_llm_review ::
    "(string \<Rightarrow> json option) \<Rightarrow> completion \<Rightarrow> string \<Rightarrow> string \<Rightarrow> json" where
  "generate_llm_review loads outcome code language =
     (case llm_try loads outcome of
        Inr result \<Rightarrow> result
      | Inl e \<Rightarrow> generate_fallback_review code language)"

section \<open>Review assembler\<close>

definition calculate_improvement :: "int \<Rightarrow> string \<Rightarrow> string" where
  "calculate_improvement current_score team =
     (let previous_avg = 70;
          diff = current_score - previous_avg
      in if diff > 0 then CHR ''+'' # str_of_int diff else str_of_int diff)"

record issue =
  issue_id :: int
  severity :: string
  title :: string
  description :: string
  line :: int
  impact :: string
  fix_time :: string
  business_impact :: string
  suggestion :: string
  auto_fix_available :: bool
  code_snippet :: "string option"

record review_response =
  review_id :: string
  score :: int
  improvement :: string
  priority :: "issue list"
  metrics :: "(string \<times> string) list"
  team_insights :: "string list"
  timestamp :: string

record code_review_request =
  code :: string
  language :: string
  filename :: "string option"
  team_id :: "string option"

text \<open>
  What the program takes from its libraries and its host. The model classes check the
  type of every field: a value of the declared type is kept as it is; what they make of a
  value of another type (convert it or reject it, \<open>None\<close>) differs between the versions of
  the library and is a parameter. \<open>float_delta\<close> is the text the improvement gets for a
  floating-point score; \<open>now_stamp\<close> and \<open>now_iso\<close> are the two readings of the clock.
\<close>

record host =
  json_loads :: "string \<Rightarrow> json option"
  as_int :: "json \<Rightarrow> int option"
  as_str :: "json \<Rightarrow> string option"
  as_bool :: "json \<Rightarrow> bool option"
  as_str_dict :: "json \<Rightarrow> (string \<times> string) list option"
  as_str_list :: "json \<Rightarrow> string list option"
  float_delta :: "pyfloat \<Rightarrow> string"
  now_stamp :: string
  now_iso :: string

definition or_invalid :: "'a option \<Rightarrow> py_exception + 'a" where
  "or_invalid r = (case r of None \<Rightarrow> Inl ValidationError | Some x \<Rightarrow> Inr x)"

definition validate_int :: "host \<Rightarrow> json \<Rightarrow> py_exception + int" where
  "validate_int H v = (case v of JInt n \<Rightarrow> Inr n | _ \<Rightarrow> or_invalid (as_int H v))"

definition validate_str :: "host \<Rightarrow> json \<Rightarrow> py_exception + string" where
  "validate_str H v = (case v of JStr s \<Rightarrow> Inr s | _ \<Rightarrow> or_invalid (as_str H v))"

definition validate_bool :: "host \<Rightarrow> json \<Rightarrow> py_exception + bool" where
  "validate_bool H v = (case v of JBool b \<Rightarrow> Inr b | _ \<Rightarrow> or_invalid (as_bool H v))"

fun validate_each :: "('a \<Rightarrow> py_exception + 'b) \<Rightarrow> 'a list \<Rightarrow> py_exception + 'b list" where
  "validate_each f [] = Inr []"
| "validate_each f (x # xs) =
     and_then (f x) (\<lambda>y. and_then (validate_each f xs) (\<lambda>ys. Inr (y # ys)))"

definition validate_str_dict :: "host \<Rightarrow> json \<Rightarrow> py_exception + (string \<times> string) list" where
  "validate_str_dict H v =
     (case v of
        JObj d \<Rightarrow> and_then (validate_each (validate_str H) (map snd d)) (\<lambda>vs. Inr (zip (map fst d) vs))
      | _ \<Rightarrow> or_invalid (as_str_dict H v))"

definition validate_str_list :: "host \<Rightarrow> json \<Rightarrow> py_exception + string list" where
  "validate_str_list H v =
     (case v of
        JList xs \<Rightarrow> validate_each (validate_str H) xs
      | _ \<Rightarrow> or_invalid (as_str_list H v))"

text \<open>\<open>Issue(id=idx, severity=issue.get('severity', 'low'), ...)\<close> for a dictionary \<open>d\<close>.\<close>

definition make_issue :: "host \<Rightarrow> int \<Rightarrow> (string \<times> json) list \<Rightarrow> py_exception + issue" where
  "make_issue H idx d =
     and_then (validate_str H (dict_get d ''severity'' (JStr ''low''))) (\<lambda>v_severity.
     and_then (validate_str H (dict_get d ''title'' (JStr ''Unknown Issue''))) (\<lambda>v_title.
     and_then (validate_str H (dict_get d ''description'' (JStr []))) (\<lambda>v_description.
     and_then (validate_int H (dict_get d ''line'' (JInt 1))) (\<lambda>v_line.
     and_then (validate_str H (dict_get d ''impact'' (JStr ''Low''))) (\<lambda>v_impact.
     and_then (validate_str H (dict_get d ''fix_time'' (JStr ''10 min''))) (\<lambda>v_fix_time.
     and_then (validate_str H (dict_get d ''business_impact'' (JStr ''Minor impact''))) (\<lambda>v_business.
     and_then (validate_str H (dict_get d ''suggestion'' (JStr ''Review and fix''))) (\<lambda>v_suggestion.
     and_then (validate_bool H (dict_get d ''auto_fix_available'' (JBool False))) (\<lambda>v_auto.
     Inr \<lparr> issue_id = idx, severity = v_severity, title = v_title,
           description = v_description, line = v_line, impact = v_impact,
           fix_time = v_fix_time, business_impact = v_business, suggestion = v_suggestion,
           auto_fix_available = v_auto, code_snippet = None \<rparr>)))))))))"

text \<open>
  What \<open>enumerate\<close> walks: the elements of a list, the keys of a dictionary, the characters
  of a string; any other value is not iterable.
\<close>

definition iterate :: "json \<Rightarrow> py_exception + json list" where
  "iterate v =
     (case v of
        JList xs \<Rightarrow> Inr xs
      | JObj d \<Rightarrow> Inr (map (\<lambda>kv. JStr (fst kv)) d)
      | JStr s \<Rightarrow> Inr (map (\<lambda>c. JStr [c]) s)
      | _ \<Rightarrow> Inl TypeError)"

text \<open>
  The loop \<open>for idx, issue in enumerate(..., 1)\<close> with the list \<open>issues\<close> as accumulator;
  \<open>issue.get\<close> exists on dictionaries only.
\<close>

fun format_issues :: "host \<Rightarrow> int \<Rightarrow> json list \<Rightarrow> issue list \<Rightarrow> py_exception + issue list" where
  "format_issues H idx [] issues = Inr issues"
| "format_issues H idx (x # rest) issues =
     (case x of
        JObj d \<Rightarrow> and_then (make_issue H idx d) (\<lambda>i. format_issues H (idx + 1) rest (issues @ [i]))
      | _ \<Rightarrow> Inl AttributeError)"

text \<open>
  The call \<open>calculate_improvement(score, request.team_id)\<close> on whatever the payload holds
  as score: integers and booleans subtract as integers, floating-point numbers as such,
  every other value raises.
\<close>

definition improvement_of :: "host \<Rightarrow> json \<Rightarrow> string \<Rightarrow> py_exception + string" where
  "improvement_of H v team =
     (case v of
        JInt n \<Rightarrow> Inr (calculate_improvement n team)
      | JBool b \<Rightarrow> Inr (calculate_improvement (if b then 1 else 0) team)
      | JFloat f \<Rightarrow> Inr (float_delta H f)
      | _ \<Rightarrow> Inl TypeError)"

definition default_metrics :: json where
  "default_metrics = JObj
     [(''complexity'', JStr ''Medium''),
      (''maintainability'', JStr ''Good''),
      (''security'', JStr ''Good''),
      (''performance'', JStr ''Good'')]"

definition default_team_insights :: json where
  "default_team_insights = JList
     [JStr ''Code follows team conventions'',
      JStr ''Consider adding more test coverage'']"

subsection \<open>Review store\<close>

text \<open>
  \<open>reviews_db\<close> is a dictionary, which keeps its items in insertion order: the list of its
  items. Assigning to a key that is present replaces the value where it stands, a new key
  goes to the end.
\<close>

type_synonym reviews_db = "(string \<times> review_response) list"

fun db_store :: "reviews_db \<Rightarrow> string \<Rightarrow> review_response \<Rightarrow> reviews_db" where
  "db_store [] k v = [(k, v)]"
| "db_store ((k', v') # rest) k v =
     (if k' = k then (k, v) # rest else (k', v') # db_store rest k v)"

subsection \<open>The review endpoint\<close>

text \<open>
  The body of the outer \<open>try\<close> block of \<open>review_code\<close>, for one outcome of the completion
  call; it returns the review and the store with the review in it. The update of the team
  context is left to a background task and has no part in the response.
\<close>

definition review_code_body ::
    "host \<Rightarrow> completion \<Rightarrow> code_review_request \<Rightarrow> reviews_db \<Rightarrow>
     py_exception + (review_response \<times> reviews_db)" where
  "review_code_body H outcome request db =
     (case generate_llm_review (json_loads H) outcome (code request) (language request) of
        JObj llm_result \<Rightarrow>
          and_then (iterate (dict_get llm_result ''issues'' (JList []))) (\<lambda>raw_issues.
          and_then (format_issues H 1 raw_issues []) (\<lambda>issues.
          let raw_score = dict_get llm_result ''score'' (JInt 75) in
          and_then (improvement_of H raw_score
                      (case team_id request of None \<Rightarrow> [] | Some t \<Rightarrow> t)) (\<lambda>v_improvement.
          and_then (validate_int H raw_score) (\<lambda>v_score.
          and_then (validate_str_dict H (dict_get llm_result ''metrics'' default_metrics)) (\<lambda>v_metrics.
          and_then (validate_str_list H
                      (dict_get llm_result ''team_insights'' default_team_insights)) (\<lambda>v_insights.
          let review = \<lparr> review_id = ''review_'' @ now_stamp H,
                         score = v_score,
                         improvement = v_improvement,
                         priority = issues,
                         metrics = v_metrics,
                         team_insights = v_insights,
                         timestamp = now_iso H \<rparr>
          in Inr (review, db_store db (review_id review) review)))))))
      | _ \<Rightarrow> Inl AttributeError)"

datatype http_exception = HTTPException nat

text \<open>\<open>except Exception as e: raise HTTPException(status_code=500, ...)\<close>\<close>

definition review_code ::
    "host \<Rightarrow> completion \<Rightarrow> code_review_request \<Rightarrow> reviews_db \<Rightarrow>
     http_exception + (review_response \<times> reviews_db)" where
  "review_code H outcome request db =
     (case review_code_body H outcome request db of
        Inl e \<Rightarrow> Inl (HTTPException 500)
      | Inr r \<Rightarrow> Inr r)"

subsection \<open>Listing the store\<close>

text \<open>
  The slice \<open>xs[start:]\<close>: a negative start counts from the end and stops at the front, a
  start beyond the end gives the empty list.
\<close>

definition slice_from :: "int \<Rightarrow> 'a list \<Rightarrow> 'a list" where
  "slice_from start xs =
     (let n = int (length xs);
          s = (if start < 0 then max 0 (n + start) else min start n)
      in drop (nat s) xs)"

record review_listing =
  total :: nat
  reviews :: "review_response list"

definition list_reviews :: "int \<Rightarrow> string \<Rightarrow> reviews_db \<Rightarrow> review_listing" where
  "list_reviews limit team db =
     \<lparr> total = length db, reviews = slice_from (- limit) (map snd db) \<rparr>"

section \<open>Observations on payloads\<close>

text \<open>\<open>payload[key]\<close> where the payload is a dictionary that has the key.\<close>

definition get_field :: "json \<Rightarrow> string \<Rightarrow> json option" where
  "get_field v k = (case v of JObj d \<Rightarrow> map_of d k | _ \<Rightarrow> None)"

definition returned_issues :: "json \<Rightarrow> json list" where
  "returned_issues v = (case get_field v ''issues'' of Some (JList xs) \<Rightarrow> xs | _ \<Rightarrow> [])"

text \<open>The list the assembler walks for a payload: what \<open>enumerate\<close> gets from it.\<close>

definition payload_issues :: "json \<Rightarrow> json list" where
  "payload_issues p =
     (case p of
        JObj d \<Rightarrow> (case iterate (dict_get d ''issues'' (JList [])) of Inr xs \<Rightarrow> xs | Inl e \<Rightarrow> [])
      | _ \<Rightarrow> [])"

section \<open>Example inputs\<close>

text \<open>
  A host whose model classes convert nothing, with a given decoder and a fixed clock; a
  decoder that knows one text; a request with the defaults of the request model; ten
  lines with a marker each.
\<close>

definition plain_host :: "(string \<Rightarrow> json option) \<Rightarrow> host" where
  "plain_host loads =
     \<lparr> json_loads = loads,
       as_int = (\<lambda>v. None),
       as_str = (\<lambda>v. None),
       as_bool = (\<lambda>v. None),
       as_str_dict = (\<lambda>v. None),
       as_str_list = (\<lambda>v. None),
       float_delta = (\<lambda>f. []),
       now_stamp = ''20240101_120000'',
       now_iso = ''2024-01-01T12:00:00'' \<rparr>"

definition decoder_of :: "string \<Rightarrow> json \<Rightarrow> string \<Rightarrow> json option" where
  "decoder_of text v s = (if s = text then Some v else None)"

definition python_request :: "string \<Rightarrow> code_review_request" where
  "python_request src =
     \<lparr> code = src, language = ''python'', filename = Some ''untitled'',
       team_id = Some ''default'' \<rparr>"

definition ten_todo_lines :: string where
  "ten_todo_lines =
     ''TODO\<newline>TODO\<newline>TODO\<newline>TODO\<newline>TODO\<newline>TODO\<newline>TODO\<newline>TODO\<newline>TODO\<newline>TODO\<newline>''"

text \<open>A marker line followed by eleven lines with a debug statement each.\<close>

definition todo_then_prints :: string where
  "todo_then_prints =
     ''# TODO\<newline>print(1)\<newline>print(1)\<newline>print(1)\<newline>print(1)\<newline>print(1)\<newline>print(1)\<newline>print(1)\<newline>print(1)\<newline>print(1)\<newline>print(1)\<newline>print(1)''"

section \<open>The scan of the fallback analyzer\<close>

lemma scan_lines_append:
  "scan_lines L i ls acc = acc @ scan_lines L i ls []"
proof (induction ls arbitrary: i acc)
  case Nil
  show ?case by simp
next
  case (Cons l ls)
  have "scan_lines L i (l # ls) acc = scan_lines L (Suc i) ls (acc @ check_line L i l)"
    by simp
  also have "\<dots> = (acc @ check_line L i l) @ scan_lines L (Suc i) ls []"
    by (rule Cons.IH)
  also have "\<dots> = acc @ scan_lines L (Suc i) ls (check_line L i l)"
    using Cons.IH [of "Suc i" "check_line L i l"] by simp
  finally show ?case by simp
qed

lemma scan_lines_Cons:
  "scan_lines L i (l # ls) [] = check_line L i l @ scan_lines L (Suc i) ls []"
  using scan_lines_append [of L "Suc i" ls "check_line L i l"] by simp

lemma set_scan_lines:
  "set (scan_lines L i ls []) = (\<Union>k<length ls. set (check_line L (i + k) (ls ! k)))"
proof (induction ls arbitrary: i)
  case Nil
  show ?case by simp
next
  case (Cons l ls)
  show ?case
    by (simp add: scan_lines_Cons Cons.IH lessThan_Suc_eq_insert_0 image_image
        del: scan_lines.simps)
qed

lemma in_fallback_issues:
  "x \<in> set (fallback_issues c) \<longleftrightarrow>
     (\<exists>k<length (split_newline c).
        x \<in> set (check_line (split_newline c) (Suc k) (split_newline c ! k)))"
  by (auto simp: fallback_issues_def Let_def set_scan_lines)

lemma returned_issues_fallback:
  "returned_issues (generate_fallback_review c lang) = take 10 (fallback_issues c)"
  by (simp add: returned_issues_def generate_fallback_review_def get_field_def Let_def)

lemma todo_issue_fields:
  "get_field (todo_issue i) ''severity'' = Some (JStr ''low'')"
  "get_field (todo_issue i) ''title'' = Some (JStr ''Unresolved TODO/FIXME'')"
  "get_field (todo_issue i) ''line'' = Some (JInt (int i))"
  by (simp_all add: todo_issue_def get_field_def)

lemma debug_issue_fields:
  "get_field (debug_issue i) ''severity'' = Some (JStr ''low'')"
  "get_field (debug_issue i) ''title'' = Some (JStr ''Debug Statement Found'')"
  "get_field (debug_issue i) ''line'' = Some (JInt (int i))"
  "get_field (debug_issue i) ''auto_fix_available'' = Some (JBool True)"
  by (simp_all add: debug_issue_def get_field_def)

lemma short_var_issue_fields:
  "get_field (short_var_issue i) ''severity'' = Some (JStr ''low'')"
  "get_field (short_var_issue i) ''title'' = Some (JStr ''Non-descriptive Variable Name'')"
  "get_field (short_var_issue i) ''line'' = Some (JInt (int i))"
  by (simp_all add: short_var_issue_def get_field_def)

lemma try_issue_fields:
  "get_field (try_issue i) ''severity'' = Some (JStr ''medium'')"
  "get_field (try_issue i) ''title'' = Some (JStr ''Incomplete Error Handling'')"
  "get_field (try_issue i) ''line'' = Some (JInt (int i))"
  "get_field (try_issue i) ''auto_fix_available'' = Some (JBool True)"
  by (simp_all add: try_issue_def get_field_def)

lemma in_check_line:
  "x \<in> set (check_line L i l) \<longleftrightarrow>
     (x = todo_issue i \<and> (sublist ''TODO'' l \<or> sublist ''FIXME'' l)) \<or>
     (x = debug_issue i \<and> re_search debug_call_at False l) \<or>
     (x = short_var_issue i \<and> re_search short_var_at False l \<and> \<not> sublist ''for'' l) \<or>
     (x = try_issue i \<and> sublist ''try:'' l \<and> \<not> has_except L i)"
  by (auto simp: check_line_def)

lemma check_line_line:
  "x \<in> set (check_line L i l) \<Longrightarrow> get_field x ''line'' = Some (JInt (int i))"
  by (auto simp: in_check_line todo_issue_fields debug_issue_fields short_var_issue_fields
      try_issue_fields)

text \<open>An issue of the scan that carries the number of a line was appended for that line.\<close>

lemma fallback_issue_at_line:
  assumes "x \<in> set (fallback_issues c)"
    and "get_field x ''line'' = Some (JInt (int k + 1))"
  shows "k < length (split_newline c) \<and>
         x \<in> set (check_line (split_newline c) (Suc k) (split_newline c ! k))"
proof -
  from assms(1) obtain j where j: "j < length (split_newline c)"
    and x: "x \<in> set (check_line (split_newline c) (Suc j) (split_newline c ! j))"
    by (auto simp: in_fallback_issues)
  from check_line_line [OF x] assms(2) have "j = k" by simp
  with j x show ?thesis by simp
qed

text \<open>
  The line numbers of the issues returned for ten marker lines and one more line: the
  ten markers fill the list, whatever the eleventh line holds.
\<close>

lemma returned_lines_after_ten:
  "map (\<lambda>x. get_field x ''line'')
     (returned_issues (generate_fallback_review (ten_todo_lines @ ''TODO'') ''python'')) =
   map (\<lambda>n. Some (JInt n)) [1, 2, 3, 4, 5, 6, 7, 8, 9, 10]"
  "map (\<lambda>x. get_field x ''line'')
     (returned_issues (generate_fallback_review (ten_todo_lines @ ''try:'') ''python'')) =
   map (\<lambda>n. Some (JInt n)) [1, 2, 3, 4, 5, 6, 7, 8, 9, 10]"
  "map (\<lambda>x. get_field x ''line'')
     (returned_issues (generate_fallback_review (ten_todo_lines @ ''x = 1'') ''python'')) =
   map (\<lambda>n. Some (JInt n)) [1, 2, 3, 4, 5, 6, 7, 8, 9, 10]"
  unfolding ten_todo_lines_def by code_simp+

lemma not_returned_line_11:
  assumes "map (\<lambda>x. get_field x ''line'') xs = map (\<lambda>n. Some (JInt n)) [1, 2, 3, 4, 5, 6, 7, 8, 9, 10]"
  shows "\<not> (\<exists>x \<in> set xs. get_field x ''line'' = Some (JInt 11))"
proof
  assume "\<exists>x \<in> set xs. get_field x ''line'' = Some (JInt 11)"
  then have "Some (JInt 11) \<in> set (map (\<lambda>x. get_field x ''line'') xs)"
    by force
  with assms show False by simp
qed

text \<open>
  The scan line by line: the issues of the whole scan are those appended up to a line,
  those of the line, and those of the lines after it.
\<close>

lemma scan_lines_app:
  "scan_lines L i (a @ b) [] = scan_lines L i a [] @ scan_lines L (i + length a) b []"
proof (induction a arbitrary: i)
  case Nil
  show ?case by simp
next
  case (Cons l a)
  have "scan_lines L i ((l # a) @ b) [] = check_line L i l @ scan_lines L (Suc i) (a @ b) []"
    by (simp only: append_Cons scan_lines_Cons)
  also have "\<dots> = check_line L i l @ scan_lines L (Suc i) a [] @
      scan_lines L (Suc i + length a) b []"
    by (simp only: Cons.IH)
  also have "\<dots> = scan_lines L i (l # a) [] @ scan_lines L (i + length (l # a)) b []"
    by (simp add: scan_lines_Cons del: scan_lines.simps)
  finally show ?case .
qed

lemma fallback_issues_split:
  assumes "k < length (split_newline c)"
  shows "\<exists>rest. fallback_issues c =
           issues_after_lines c k @
           check_line (split_newline c) (Suc k) (split_newline c ! k) @ rest"
proof -
  let ?L = "split_newline c"
  from assms have "?L = take k ?L @ (?L ! k) # drop (Suc k) ?L"
    by (simp add: id_take_nth_drop)
  then have "scan_lines ?L 1 ?L [] =
      scan_lines ?L 1 (take k ?L @ (?L ! k) # drop (Suc k) ?L) []"
    by simp
  also have "\<dots> = scan_lines ?L 1 (take k ?L) [] @
      scan_lines ?L (1 + length (take k ?L)) ((?L ! k) # drop (Suc k) ?L) []"
    by (rule scan_lines_app)
  also from assms have "1 + length (take k ?L) = Suc k" by simp
  finally show ?thesis
    by (simp add: fallback_issues_def issues_after_lines_def Let_def scan_lines_Cons
        del: scan_lines.simps)
qed


lemma issues_after_lines_line:
  assumes "x \<in> set (issues_after_lines c k)"
  shows "get_field x ''line'' \<noteq> Some (JInt (int k + 1))"
proof -
  let ?L = "split_newline c"
  from assms obtain j where j: "j < length (take k ?L)"
    and x: "x \<in> set (check_line ?L (1 + j) (take k ?L ! j))"
    by (auto simp: issues_after_lines_def Let_def set_scan_lines)
  from check_line_line [OF x] have "get_field x ''line'' = Some (JInt (int (1 + j)))" .
  moreover from j have "j < k" by simp
  ultimately show ?thesis by simp
qed

text \<open>
  An issue that stands in the scan behind the list \<open>B\<close>, no issue of which looks like
  it, is among the first ten exactly when \<open>B\<close> has fewer than ten issues.
\<close>

lemma returned_position:
  assumes scan: "scan = B @ x # R"
    and before: "\<forall>y \<in> set B. \<not> Q y"
    and x: "Q x"
  shows "(\<exists>y \<in> set (take 10 scan). Q y) \<longleftrightarrow> length B < 10"
proof
  assume "length B < 10"
  then have "x \<in> set (take 10 scan)"
    by (simp add: scan take_Cons')
  with x show "\<exists>y \<in> set (take 10 scan). Q y" ..
next
  assume ex: "\<exists>y \<in> set (take 10 scan). Q y"
  show "length B < 10"
  proof (rule ccontr)
    assume "\<not> length B < 10"
    then have "take 10 scan = take 10 B" by (simp add: scan)
    with ex obtain y where "y \<in> set (take 10 B)" and "Q y" by auto
    then have "y \<in> set B" by (auto dest: in_set_takeD)
    with before \<open>Q y\<close> show False by blast
  qed
qed

section \<open>The fallback analyzer on the empty text\<close>

lemma fallback_issues_empty: "fallback_issues [] = []"
  by (simp add: fallback_issues_def split_newline_def check_line_def short_var_at_def
      debug_call_at_def word_boundary_def starts_with_word_def)

lemma complexity_score_empty: "complexity_score (analyze_code_complexity []) = 0"
  by (simp add: analyze_code_complexity_def split_newline_def lstrip_def
      length_findall_control_def)

text \<open>
  C3, as stated: the fallback analyzer on the empty text gives score 50, no issues and
  the complexity rating Medium. The score is not 50.
\<close>

theorem fallback_empty_score_50_counterexample:
  "\<not> (get_field (generate_fallback_review [] ''python'') ''score'' = Some (JInt 50) \<and>
      get_field (generate_fallback_review [] ''python'') ''issues'' = Some (JList []) \<and>
      (case get_field (generate_fallback_review [] ''python'') ''metrics'' of
         Some m \<Rightarrow> get_field m ''complexity'' = Some (JStr ''Medium'')
       | None \<Rightarrow> False))"
  by (simp add: generate_fallback_review_def get_field_def complexity_score_empty)

text \<open>
  C3, amended: the fallback analyzer on the empty text, for every language tag, gives
  score 100 (the complexity score is 0, and the score is the larger of 50 and 100 minus
  it), no issues and the complexity rating Medium.
\<close>

theorem fallback_empty_review:
  "get_field (generate_fallback_review [] lang) ''score'' = Some (JInt 100) \<and>
   get_field (generate_fallback_review [] lang) ''issues'' = Some (JList []) \<and>
   (\<exists>m. get_field (generate_fallback_review [] lang) ''metrics'' = Some m \<and>
        get_field m ''complexity'' = Some (JStr ''Medium''))"
  by (simp add: generate_fallback_review_def get_field_def complexity_score_empty
      fallback_issues_empty)

section \<open>Listing the store\<close>

lemma slice_from_last:
  "0 < n \<Longrightarrow> slice_from (- n) xs = drop (length xs - nat n) xs"
  by (auto simp: slice_from_def Let_def max_def nat_diff_distrib' intro: arg_cong [where f = "\<lambda>k. drop k xs"])

lemma list_reviews_positive_limit:
  "0 < n \<Longrightarrow>
     total (list_reviews n team db) = length db \<and>
     reviews (list_reviews n team db) = drop (length db - nat n) (map snd db) \<and>
     length (reviews (list_reviews n team db)) \<le> nat n"
  by (simp add: list_reviews_def slice_from_last)

text \<open>
  C7 at the limit 0: the slice \<open>[-0:]\<close> is the slice \<open>[0:]\<close>, so the listing holds every
  stored review, not at most 0 of them.
\<close>

theorem list_reviews_limit_zero:
  "reviews (list_reviews 0 team db) = map snd db \<and> total (list_reviews 0 team db) = length db"
  by (simp add: list_reviews_def slice_from_def)

section \<open>Unresolved markers\<close>

text \<open>
  C10: the detection of the markers is case-sensitive. For every code text and every
  line of it that contains neither \<open>TODO\<close> nor \<open>FIXME\<close> in upper case (whatever else it
  holds, lower-case forms included), the returned issue list has no "Unresolved
  TODO/FIXME" issue with that line's number.
\<close>

theorem todo_case_sensitive:
  assumes "k < length (split_newline c)"
    and "\<not> sublist ''TODO'' (split_newline c ! k)"
    and "\<not> sublist ''FIXME'' (split_newline c ! k)"
  shows "\<not> (\<exists>x \<in> set (returned_issues (generate_fallback_review c lang)).
            get_field x ''title'' = Some (JStr ''Unresolved TODO/FIXME'') \<and>
            get_field x ''line'' = Some (JInt (int k + 1)))"
proof
  assume "\<exists>x \<in> set (returned_issues (generate_fallback_review c lang)).
            get_field x ''title'' = Some (JStr ''Unresolved TODO/FIXME'') \<and>
            get_field x ''line'' = Some (JInt (int k + 1))"
  then obtain x where ret: "x \<in> set (take 10 (fallback_issues c))"
    and t: "get_field x ''title'' = Some (JStr ''Unresolved TODO/FIXME'')"
    and l: "get_field x ''line'' = Some (JInt (int k + 1))"
    by (auto simp: returned_issues_fallback)
  from ret have "x \<in> set (fallback_issues c)" by (rule in_set_takeD)
  from fallback_issue_at_line [OF this l]
  have "x \<in> set (check_line (split_newline c) (Suc k) (split_newline c ! k))" by simp
  with assms(2,3) t show False
    by (auto simp: in_check_line debug_issue_fields short_var_issue_fields try_issue_fields)
qed

text \<open>C10 on the one-line text \<open># todo: fixme later\<close>: no issue for line 1.\<close>

theorem todo_case_sensitive_witness:
  "0 < length (split_newline ''# todo: fixme later'') \<and>
   \<not> sublist ''TODO'' (split_newline ''# todo: fixme later'' ! 0) \<and>
   \<not> sublist ''FIXME'' (split_newline ''# todo: fixme later'' ! 0) \<and>
   \<not> (\<exists>x \<in> set (returned_issues (generate_fallback_review ''# todo: fixme later'' ''python'')).
         get_field x ''title'' = Some (JStr ''Unresolved TODO/FIXME'') \<and>
         get_field x ''line'' = Some (JInt 1))"
proof -
  have h1: "0 < length (split_newline ''# todo: fixme later'')"
    and h2: "\<not> sublist ''TODO'' (split_newline ''# todo: fixme later'' ! 0)"
    and h3: "\<not> sublist ''FIXME'' (split_newline ''# todo: fixme later'' ! 0)"
    by code_simp+
  from todo_case_sensitive [OF h1 h2 h3, of "''python''"] h1 h2 h3
  show ?thesis by simp
qed

text \<open>
  C5, as stated: every line with a marker has a low-severity "Unresolved TODO/FIXME"
  issue with its number in the returned list. It fails on eleven marker lines: the
  returned list holds ten issues, and the eleventh line has none.
\<close>

theorem todo_line_cut_counterexample:
  "\<not> (\<forall>k < length (split_newline (ten_todo_lines @ ''TODO'')).
        sublist ''TODO'' (split_newline (ten_todo_lines @ ''TODO'') ! k) \<or>
        sublist ''FIXME'' (split_newline (ten_todo_lines @ ''TODO'') ! k) \<longrightarrow>
        (\<exists>x \<in> set (returned_issues
                      (generate_fallback_review (ten_todo_lines @ ''TODO'') ''python'')).
           get_field x ''severity'' = Some (JStr ''low'') \<and>
           get_field x ''title'' = Some (JStr ''Unresolved TODO/FIXME'') \<and>
           get_field x ''line'' = Some (JInt (int k + 1))))"
proof
  assume a: "\<forall>k < length (split_newline (ten_todo_lines @ ''TODO'')).
        sublist ''TODO'' (split_newline (ten_todo_lines @ ''TODO'') ! k) \<or>
        sublist ''FIXME'' (split_newline (ten_todo_lines @ ''TODO'') ! k) \<longrightarrow>
        (\<exists>x \<in> set (returned_issues
                      (generate_fallback_review (ten_todo_lines @ ''TODO'') ''python'')).
           get_field x ''severity'' = Some (JStr ''low'') \<and>
           get_field x ''title'' = Some (JStr ''Unresolved TODO/FIXME'') \<and>
           get_field x ''line'' = Some (JInt (int k + 1)))"
  have l: "length (split_newline (ten_todo_lines @ ''TODO'')) = 11"
    and n: "sublist ''TODO'' (split_newline (ten_todo_lines @ ''TODO'') ! 10)"
    unfolding ten_todo_lines_def by code_simp+
  from a [rule_format, of 10] l n
  have "\<exists>x \<in> set (returned_issues
                    (generate_fallback_review (ten_todo_lines @ ''TODO'') ''python'')).
          get_field x ''line'' = Some (JInt 11)"
    by auto
  with not_returned_line_11 [OF returned_lines_after_ten(1)] show False by blast
qed

text \<open>
  C5, amended: for every code text, every line with a \<open>TODO\<close> or \<open>FIXME\<close> marker makes
  the scan append a low-severity "Unresolved TODO/FIXME" issue with that line's 1-based
  number; the returned list is the first ten issues of the scan, and that issue is in the
  returned list exactly when fewer than ten issues were appended for the lines before it.
\<close>

theorem todo_line_emits_issue:
  assumes "k < length (split_newline c)"
    and "sublist ''TODO'' (split_newline c ! k) \<or> sublist ''FIXME'' (split_newline c ! k)"
  shows "(\<exists>x \<in> set (fallback_issues c).
            get_field x ''severity'' = Some (JStr ''low'') \<and>
            get_field x ''title'' = Some (JStr ''Unresolved TODO/FIXME'') \<and>
            get_field x ''line'' = Some (JInt (int k + 1))) \<and>
         returned_issues (generate_fallback_review c lang) = take 10 (fallback_issues c) \<and>
         ((\<exists>x \<in> set (returned_issues (generate_fallback_review c lang)).
             get_field x ''severity'' = Some (JStr ''low'') \<and>
             get_field x ''title'' = Some (JStr ''Unresolved TODO/FIXME'') \<and>
             get_field x ''line'' = Some (JInt (int k + 1))) \<longleftrightarrow>
          length (issues_after_lines c k) < 10)"
proof -
  let ?Q = "\<lambda>x. get_field x ''severity'' = Some (JStr ''low'') \<and>
            get_field x ''title'' = Some (JStr ''Unresolved TODO/FIXME'') \<and>
            get_field x ''line'' = Some (JInt (int k + 1))"
  from assms have "todo_issue (Suc k) \<in> set (fallback_issues c)"
    by (auto simp: in_fallback_issues in_check_line)
  moreover have q: "?Q (todo_issue (Suc k))"
    by (simp add: todo_issue_fields)
  ultimately have emitted: "\<exists>x \<in> set (fallback_issues c). ?Q x" by blast
  from assms(2) obtain C where
    "check_line (split_newline c) (Suc k) (split_newline c ! k) = todo_issue (Suc k) # C"
    by (auto simp: check_line_def)
  with fallback_issues_split [OF assms(1)] obtain R where
    scan: "fallback_issues c = issues_after_lines c k @ todo_issue (Suc k) # R"
    by auto
  have "\<forall>y \<in> set (issues_after_lines c k). \<not> ?Q y"
    using issues_after_lines_line by blast
  from returned_position [where Q = ?Q, OF scan this q]
  have "(\<exists>x \<in> set (take 10 (fallback_issues c)). ?Q x) \<longleftrightarrow>
      length (issues_after_lines c k) < 10" .
  with emitted show ?thesis
    by (simp only: returned_issues_fallback simp_thms)
qed

text \<open>
  C5 on a marker line followed by eleven debug lines: the scan finds twelve issues, and
  the marker issue of line 1, with no issue before it, is returned.
\<close>

theorem todo_line_emits_issue_witness:
  "0 < length (split_newline todo_then_prints) \<and>
   sublist ''TODO'' (split_newline todo_then_prints ! 0) \<and>
   length (fallback_issues todo_then_prints) = 12 \<and>
   length (issues_after_lines todo_then_prints 0) < 10 \<and>
   (\<exists>x \<in> set (returned_issues (generate_fallback_review todo_then_prints ''python'')).
      get_field x ''severity'' = Some (JStr ''low'') \<and>
      get_field x ''title'' = Some (JStr ''Unresolved TODO/FIXME'') \<and>
      get_field x ''line'' = Some (JInt 1))"
proof -
  have h1: "0 < length (split_newline todo_then_prints)"
    and h2: "sublist ''TODO'' (split_newline todo_then_prints ! 0)"
    and h3: "length (fallback_issues todo_then_prints) = 12"
    and h4: "length (issues_after_lines todo_then_prints 0) < 10"
    unfolding todo_then_prints_def by code_simp+
  from h2 have h2': "sublist ''TODO'' (split_newline todo_then_prints ! 0) \<or>
      sublist ''FIXME'' (split_newline todo_then_prints ! 0)" ..
  note todo_line_emits_issue [OF h1 h2', of "''python''",
      THEN conjunct2, THEN conjunct2, THEN iffD2, OF h4]
  then have "\<exists>x \<in> set (returned_issues (generate_fallback_review todo_then_prints ''python'')).
      get_field x ''severity'' = Some (JStr ''low'') \<and>
      get_field x ''title'' = Some (JStr ''Unresolved TODO/FIXME'') \<and>
      get_field x ''line'' = Some (JInt 1)"
    by simp
  with h1 h2 h3 h4 show ?thesis by (intro conjI)
qed

section \<open>Error-handling blocks without a handler\<close>






section \<open>Single-letter variables\<close>

lemma is_lower_word: "is_lower c \<Longrightarrow> is_word c"
  by (simp add: is_lower_def is_word_def)

lemma equals_not_space: "\<not> is_space (CHR ''='')"
  by (simp add: is_space_def)

lemma dropWhile_space_equals:
  "(\<exists>rest. dropWhile is_space cs = CHR ''='' # rest) \<longleftrightarrow>
     (\<exists>ws rest. cs = ws @ CHR ''='' # rest \<and> (\<forall>w \<in> set ws. is_space w))"
proof
  assume "\<exists>rest. dropWhile is_space cs = CHR ''='' # rest"
  then obtain rest where "dropWhile is_space cs = CHR ''='' # rest" ..
  then have "cs = takeWhile is_space cs @ CHR ''='' # rest"
    by (metis takeWhile_dropWhile_id)
  moreover have "\<forall>w \<in> set (takeWhile is_space cs). is_space w"
    by (auto dest: set_takeWhileD)
  ultimately show "\<exists>ws rest. cs = ws @ CHR ''='' # rest \<and> (\<forall>w \<in> set ws. is_space w)"
    by blast
next
  assume "\<exists>ws rest. cs = ws @ CHR ''='' # rest \<and> (\<forall>w \<in> set ws. is_space w)"
  then obtain ws rest where "cs = ws @ CHR ''='' # rest" and "\<forall>w \<in> set ws. is_space w"
    by blast
  then have "dropWhile is_space cs = CHR ''='' # rest"
    by (simp add: dropWhile_append2 equals_not_space)
  then show "\<exists>rest. dropWhile is_space cs = CHR ''='' # rest" ..
qed

lemma starts_with_char:
  "(case ys of [] \<Rightarrow> False | d # _ \<Rightarrow> d = e) \<longleftrightarrow> (\<exists>rest. ys = e # rest)"
  by (cases ys) auto

lemma short_var_at_iff:
  "short_var_at pw s \<longleftrightarrow>
     \<not> pw \<and> (\<exists>c ws rest. s = c # ws @ CHR ''='' # rest \<and> is_lower c \<and> (\<forall>w \<in> set ws. is_space w))"
proof (cases s)
  case Nil
  then show ?thesis by (simp add: short_var_at_def)
next
  case (Cons c cs)
  have "(case dropWhile is_space cs of [] \<Rightarrow> False | d # _ \<Rightarrow> d = CHR ''='') \<longleftrightarrow>
        (\<exists>rest. dropWhile is_space cs = CHR ''='' # rest)"
    by (rule starts_with_char)
  then have body: "(case dropWhile is_space cs of [] \<Rightarrow> False | d # _ \<Rightarrow> d = CHR ''='') \<longleftrightarrow>
        (\<exists>ws rest. cs = ws @ CHR ''='' # rest \<and> (\<forall>w \<in> set ws. is_space w))"
    by (simp only: dropWhile_space_equals)
  show ?thesis
    unfolding Cons short_var_at_def word_boundary_def starts_with_word_def
    using is_lower_word [of c] by (auto simp: body)
qed

lemma re_search_short_var_iff:
  "re_search short_var_at pw l \<longleftrightarrow>
     (\<exists>pre c ws rest. l = pre @ c # ws @ CHR ''='' # rest \<and>
        (if pre = [] then \<not> pw else \<not> is_word (last pre)) \<and>
        is_lower c \<and> (\<forall>w \<in> set ws. is_space w))"
proof (induction l arbitrary: pw)
  case Nil
  show ?case by (simp add: short_var_at_iff)
next
  case (Cons x xs)
  show ?case
  proof
    assume "re_search short_var_at pw (x # xs)"
    then consider "short_var_at pw (x # xs)" | "re_search short_var_at (is_word x) xs"
      by auto
    then show "\<exists>pre c ws rest. x # xs = pre @ c # ws @ CHR ''='' # rest \<and>
        (if pre = [] then \<not> pw else \<not> is_word (last pre)) \<and>
        is_lower c \<and> (\<forall>w \<in> set ws. is_space w)"
    proof cases
      case 1
      then obtain c ws rest where "\<not> pw" "x # xs = c # ws @ CHR ''='' # rest" "is_lower c"
        "\<forall>w \<in> set ws. is_space w"
        by (auto simp: short_var_at_iff)
      then show ?thesis by (intro exI [of _ "[]"]) auto
    next
      case 2
      then obtain pre c ws rest where xs: "xs = pre @ c # ws @ CHR ''='' # rest"
        and b: "if pre = [] then \<not> is_word x else \<not> is_word (last pre)"
        and c: "is_lower c" "\<forall>w \<in> set ws. is_space w"
        unfolding Cons.IH by blast
      from xs b c show ?thesis
        by (intro exI [of _ "x # pre"] exI [of _ c] exI [of _ ws] exI [of _ rest])
          (auto split: if_splits)
    qed
  next
    assume "\<exists>pre c ws rest. x # xs = pre @ c # ws @ CHR ''='' # rest \<and>
        (if pre = [] then \<not> pw else \<not> is_word (last pre)) \<and>
        is_lower c \<and> (\<forall>w \<in> set ws. is_space w)"
    then obtain pre c ws rest where eq: "x # xs = pre @ c # ws @ CHR ''='' # rest"
      and b: "if pre = [] then \<not> pw else \<not> is_word (last pre)"
      and c: "is_lower c" "\<forall>w \<in> set ws. is_space w"
      by blast
    show "re_search short_var_at pw (x # xs)"
    proof (cases pre)
      case Nil
      with eq b c have "short_var_at pw (x # xs)"
        unfolding short_var_at_iff by auto
      then show ?thesis by simp
    next
      case (Cons y pre')
      with eq have x: "y = x" and xs: "xs = pre' @ c # ws @ CHR ''='' # rest" by auto
      from b Cons x have "if pre' = [] then \<not> is_word x else \<not> is_word (last pre')"
        by (auto split: if_splits)
      with xs c have "re_search short_var_at (is_word x) xs"
        unfolding Cons.IH by blast
      then show ?thesis by simp
    qed
  qed
qed

text \<open>Ten marker lines followed by the line \<open>x = 1\<close>: the issue of line 11 is cut.\<close>

lemma short_variable_cut:
  "\<not> (\<forall>k < length (split_newline (ten_todo_lines @ ''x = 1'')).
        re_search short_var_at False (split_newline (ten_todo_lines @ ''x = 1'') ! k) \<and>
        \<not> sublist ''for'' (split_newline (ten_todo_lines @ ''x = 1'') ! k) \<longrightarrow>
        (\<exists>x \<in> set (returned_issues
                      (generate_fallback_review (ten_todo_lines @ ''x = 1'') ''python'')).
           get_field x ''severity'' = Some (JStr ''low'') \<and>
           get_field x ''title'' = Some (JStr ''Non-descriptive Variable Name'') \<and>
           get_field x ''line'' = Some (JInt (int k + 1))))"
proof
  assume a: "\<forall>k < length (split_newline (ten_todo_lines @ ''x = 1'')).
        re_search short_var_at False (split_newline (ten_todo_lines @ ''x = 1'') ! k) \<and>
        \<not> sublist ''for'' (split_newline (ten_todo_lines @ ''x = 1'') ! k) \<longrightarrow>
        (\<exists>x \<in> set (returned_issues
                      (generate_fallback_review (ten_todo_lines @ ''x = 1'') ''python'')).
           get_field x ''severity'' = Some (JStr ''low'') \<and>
           get_field x ''title'' = Some (JStr ''Non-descriptive Variable Name'') \<and>
           get_field x ''line'' = Some (JInt (int k + 1)))"
  have l: "length (split_newline (ten_todo_lines @ ''x = 1'')) = 11"
    and n: "re_search short_var_at False (split_newline (ten_todo_lines @ ''x = 1'') ! 10)"
    and f: "\<not> sublist ''for'' (split_newline (ten_todo_lines @ ''x = 1'') ! 10)"
    unfolding ten_todo_lines_def by code_simp+
  from a [rule_format, of 10] l n f
  have "\<exists>x \<in> set (returned_issues
                    (generate_fallback_review (ten_todo_lines @ ''x = 1'') ''python'')).
          get_field x ''line'' = Some (JInt 11)"
    by auto
  with not_returned_line_11 [OF returned_lines_after_ten(3)] show False by blast
qed

text \<open>
  C9, as stated: every line with a single-letter assignment outside a loop has a
  low-severity "Non-descriptive Variable Name" issue in the returned list. It fails in
  three ways. On ten marker lines followed by the line \<open>x = 1\<close> the ten markers fill the
  returned list. The line \<open>x = perform()\<close>, which has no control keyword, holds the
  letters \<open>for\<close> inside a word and gets no issue. The line \<open>X = 1\<close>, whose single letter
  is upper-case, gets no issue.
\<close>

theorem short_variable_cut_counterexample:
  "\<not> (\<forall>k < length (split_newline (ten_todo_lines @ ''x = 1'')).
        re_search short_var_at False (split_newline (ten_todo_lines @ ''x = 1'') ! k) \<and>
        \<not> sublist ''for'' (split_newline (ten_todo_lines @ ''x = 1'') ! k) \<longrightarrow>
        (\<exists>x \<in> set (returned_issues
                      (generate_fallback_review (ten_todo_lines @ ''x = 1'') ''python'')).
           get_field x ''severity'' = Some (JStr ''low'') \<and>
           get_field x ''title'' = Some (JStr ''Non-descriptive Variable Name'') \<and>
           get_field x ''line'' = Some (JInt (int k + 1)))) \<and>
   split_newline ''x = perform()'' = [[] @ CHR ''x'' # '' '' @ CHR ''='' # '' perform()''] \<and>
   length_findall_control ''x = perform()'' = 0 \<and>
   returned_issues (generate_fallback_review ''x = perform()'' ''python'') = [] \<and>
   split_newline ''X = 1'' = [[] @ CHR ''X'' # '' '' @ CHR ''='' # '' 1''] \<and>
   length_findall_control ''X = 1'' = 0 \<and>
   returned_issues (generate_fallback_review ''X = 1'' ''python'') = []"
proof -
  have "split_newline ''x = perform()'' = [[] @ CHR ''x'' # '' '' @ CHR ''='' # '' perform()'']"
    and "length_findall_control ''x = perform()'' = 0"
    and "returned_issues (generate_fallback_review ''x = perform()'' ''python'') = []"
    and "split_newline ''X = 1'' = [[] @ CHR ''X'' # '' '' @ CHR ''='' # '' 1'']"
    and "length_findall_control ''X = 1'' = 0"
    and "returned_issues (generate_fallback_review ''X = 1'' ''python'') = []"
    by code_simp+
  with short_variable_cut show ?thesis by (intro conjI)
qed

text \<open>
  The place of the issue in the scan: behind the issues of the lines before it and the
  marker issue and the debug issue of its own line.
\<close>

lemma check_line_short_var:
  assumes "re_search short_var_at False l" and "\<not> sublist ''for'' l"
  shows "\<exists>P T. check_line L i l = P @ short_var_issue i # T \<and>
           length P = (if sublist ''TODO'' l \<or> sublist ''FIXME'' l then 1 else 0) +
                      (if re_search debug_call_at False l then 1 else 0) \<and>
           (\<forall>y \<in> set P. get_field y ''title'' \<noteq> Some (JStr ''Non-descriptive Variable Name''))"
proof -
  let ?P = "(if sublist ''TODO'' l \<or> sublist ''FIXME'' l then [todo_issue i] else []) @
            (if re_search debug_call_at False l then [debug_issue i] else [])"
  let ?T = "(if sublist ''try:'' l \<and> \<not> has_except L i then [try_issue i] else [])"
  from assms have "check_line L i l = ?P @ short_var_issue i # ?T"
    by (simp add: check_line_def)
  moreover have "length ?P = (if sublist ''TODO'' l \<or> sublist ''FIXME'' l then 1 else 0) +
                      (if re_search debug_call_at False l then 1 else 0)"
    by simp
  moreover have "\<forall>y \<in> set ?P. get_field y ''title'' \<noteq> Some (JStr ''Non-descriptive Variable Name'')"
    by (auto simp: todo_issue_fields debug_issue_fields)
  ultimately show ?thesis by blast
qed

lemma short_variable_issue_position:
  assumes "k < length (split_newline c)"
    and "split_newline c ! k = pre @ v # ws @ CHR ''='' # rest"
    and "pre = [] \<or> \<not> is_word (last pre)"
    and "is_lower v"
    and "\<forall>w \<in> set ws. is_space w"
    and "\<not> sublist ''for'' (split_newline c ! k)"
  shows "(\<exists>x \<in> set (fallback_issues c).
            get_field x ''severity'' = Some (JStr ''low'') \<and>
            get_field x ''title'' = Some (JStr ''Non-descriptive Variable Name'') \<and>
            get_field x ''line'' = Some (JInt (int k + 1))) \<and>
         returned_issues (generate_fallback_review c lang) = take 10 (fallback_issues c) \<and>
         ((\<exists>x \<in> set (returned_issues (generate_fallback_review c lang)).
             get_field x ''severity'' = Some (JStr ''low'') \<and>
             get_field x ''title'' = Some (JStr ''Non-descriptive Variable Name'') \<and>
             get_field x ''line'' = Some (JInt (int k + 1))) \<longleftrightarrow>
          length (issues_after_lines c k) +
            (if sublist ''TODO'' (split_newline c ! k) \<or> sublist ''FIXME'' (split_newline c ! k)
             then 1 else 0) +
            (if re_search debug_call_at False (split_newline c ! k) then 1 else 0) < 10)"
proof -
  let ?Q = "\<lambda>x. get_field x ''severity'' = Some (JStr ''low'') \<and>
            get_field x ''title'' = Some (JStr ''Non-descriptive Variable Name'') \<and>
            get_field x ''line'' = Some (JInt (int k + 1))"
  from assms(2-5) have m: "re_search short_var_at False (split_newline c ! k)"
    unfolding re_search_short_var_iff by (cases "pre = []") auto
  with assms(1,6) have "short_var_issue (Suc k) \<in> set (fallback_issues c)"
    by (auto simp: in_fallback_issues in_check_line)
  moreover have q: "?Q (short_var_issue (Suc k))"
    by (simp add: short_var_issue_fields)
  ultimately have emitted: "\<exists>x \<in> set (fallback_issues c). ?Q x" by blast
  from check_line_short_var [OF m assms(6)] obtain P T where
    cl: "check_line (split_newline c) (Suc k) (split_newline c ! k) =
           P @ short_var_issue (Suc k) # T"
    and len: "length P =
        (if sublist ''TODO'' (split_newline c ! k) \<or> sublist ''FIXME'' (split_newline c ! k)
         then 1 else 0) +
        (if re_search debug_call_at False (split_newline c ! k) then 1 else 0)"
    and P: "\<forall>y \<in> set P. get_field y ''title'' \<noteq> Some (JStr ''Non-descriptive Variable Name'')"
    by blast
  from fallback_issues_split [OF assms(1)] cl obtain R where
    scan: "fallback_issues c = (issues_after_lines c k @ P) @ short_var_issue (Suc k) # R"
    by auto
  have "\<forall>y \<in> set (issues_after_lines c k @ P). \<not> ?Q y"
    using issues_after_lines_line P by auto
  from returned_position [where Q = ?Q, OF scan this q]
  have "(\<exists>x \<in> set (take 10 (fallback_issues c)). ?Q x) \<longleftrightarrow>
      length (issues_after_lines c k @ P) < 10" .
  with emitted len show ?thesis
    by (simp only: returned_issues_fallback simp_thms length_append add.assoc)
qed

text \<open>
  C9, amended: for every code text and every line of it, the scan appends a
  "Non-descriptive Variable Name" issue with that line's number exactly when the line has
  a lower-case letter \<open>a\<close> to \<open>z\<close>, at the start of the line or after a character that
  is no word character, followed by any whitespace and an equals sign, and the line does
  not contain the letters \<open>for\<close> anywhere (a line with \<open>for\<close> inside another word, or with
  an upper-case single letter, gets no issue). The issue has low severity, and it is in
  the returned list, the first ten issues of the scan, exactly when fewer than ten issues
  were appended before it: those of the lines before, and the marker issue and the debug
  issue of its own line.
\<close>

theorem short_variable_line_emits_issue:
  assumes "k < length (split_newline c)"
  shows "((\<exists>x \<in> set (fallback_issues c).
             get_field x ''title'' = Some (JStr ''Non-descriptive Variable Name'') \<and>
             get_field x ''line'' = Some (JInt (int k + 1))) \<longleftrightarrow>
          (\<exists>pre v ws rest. split_newline c ! k = pre @ v # ws @ CHR ''='' # rest \<and>
             (pre = [] \<or> \<not> is_word (last pre)) \<and> is_lower v \<and> (\<forall>w \<in> set ws. is_space w)) \<and>
          \<not> sublist ''for'' (split_newline c ! k)) \<and>
         ((\<exists>pre v ws rest. split_newline c ! k = pre @ v # ws @ CHR ''='' # rest \<and>
             (pre = [] \<or> \<not> is_word (last pre)) \<and> is_lower v \<and> (\<forall>w \<in> set ws. is_space w)) \<and>
          \<not> sublist ''for'' (split_newline c ! k) \<longrightarrow>
            (\<exists>x \<in> set (fallback_issues c).
               get_field x ''severity'' = Some (JStr ''low'') \<and>
               get_field x ''title'' = Some (JStr ''Non-descriptive Variable Name'') \<and>
               get_field x ''line'' = Some (JInt (int k + 1))) \<and>
            ((\<exists>x \<in> set (returned_issues (generate_fallback_review c lang)).
                get_field x ''severity'' = Some (JStr ''low'') \<and>
                get_field x ''title'' = Some (JStr ''Non-descriptive Variable Name'') \<and>
                get_field x ''line'' = Some (JInt (int k + 1))) \<longleftrightarrow>
             length (issues_after_lines c k) +
               (if sublist ''TODO'' (split_newline c ! k) \<or> sublist ''FIXME'' (split_newline c ! k)
                then 1 else 0) +
               (if re_search debug_call_at False (split_newline c ! k) then 1 else 0) < 10)) \<and>
         returned_issues (generate_fallback_review c lang) = take 10 (fallback_issues c)"
proof -
  let ?l = "split_newline c ! k"
  let ?pat = "\<exists>pre v ws rest. ?l = pre @ v # ws @ CHR ''='' # rest \<and>
             (pre = [] \<or> \<not> is_word (last pre)) \<and> is_lower v \<and> (\<forall>w \<in> set ws. is_space w)"
  have pat: "re_search short_var_at False ?l \<longleftrightarrow> ?pat"
    unfolding re_search_short_var_iff by (simp only: simp_thms if_bool_eq_disj) blast
  have a: "(\<exists>x \<in> set (fallback_issues c).
             get_field x ''title'' = Some (JStr ''Non-descriptive Variable Name'') \<and>
             get_field x ''line'' = Some (JInt (int k + 1))) \<longleftrightarrow>
           re_search short_var_at False ?l \<and> \<not> sublist ''for'' ?l"
  proof
    assume "\<exists>x \<in> set (fallback_issues c).
             get_field x ''title'' = Some (JStr ''Non-descriptive Variable Name'') \<and>
             get_field x ''line'' = Some (JInt (int k + 1))"
    then obtain x where x: "x \<in> set (fallback_issues c)"
      and t: "get_field x ''title'' = Some (JStr ''Non-descriptive Variable Name'')"
      and l: "get_field x ''line'' = Some (JInt (int k + 1))"
      by blast
    from fallback_issue_at_line [OF x l]
    have "x \<in> set (check_line (split_newline c) (Suc k) ?l)" by simp
    with t show "re_search short_var_at False ?l \<and> \<not> sublist ''for'' ?l"
      by (auto simp: in_check_line todo_issue_fields debug_issue_fields try_issue_fields)
  next
    assume "re_search short_var_at False ?l \<and> \<not> sublist ''for'' ?l"
    with assms have "short_var_issue (Suc k) \<in> set (fallback_issues c)"
      by (auto simp: in_fallback_issues in_check_line)
    then show "\<exists>x \<in> set (fallback_issues c).
             get_field x ''title'' = Some (JStr ''Non-descriptive Variable Name'') \<and>
             get_field x ''line'' = Some (JInt (int k + 1))"
      by (intro bexI [of _ "short_var_issue (Suc k)"]) (simp_all add: short_var_issue_fields)
  qed
  have b: "?pat \<and> \<not> sublist ''for'' ?l \<longrightarrow>
            (\<exists>x \<in> set (fallback_issues c).
               get_field x ''severity'' = Some (JStr ''low'') \<and>
               get_field x ''title'' = Some (JStr ''Non-descriptive Variable Name'') \<and>
               get_field x ''line'' = Some (JInt (int k + 1))) \<and>
            ((\<exists>x \<in> set (returned_issues (generate_fallback_review c lang)).
                get_field x ''severity'' = Some (JStr ''low'') \<and>
                get_field x ''title'' = Some (JStr ''Non-descriptive Variable Name'') \<and>
                get_field x ''line'' = Some (JInt (int k + 1))) \<longleftrightarrow>
             length (issues_after_lines c k) +
               (if sublist ''TODO'' ?l \<or> sublist ''FIXME'' ?l then 1 else 0) +
               (if re_search debug_call_at False ?l then 1 else 0) < 10)"
  proof
    assume h: "?pat \<and> \<not> sublist ''for'' ?l"
    then obtain pre v ws rest where p: "?l = pre @ v # ws @ CHR ''='' # rest"
      "pre = [] \<or> \<not> is_word (last pre)" "is_lower v" "\<forall>w \<in> set ws. is_space w"
      by blast
    from h have nf: "\<not> sublist ''for'' ?l" ..
    note r = short_variable_issue_position [OF assms p nf, of lang]
    from r [THEN conjunct1] r [THEN conjunct2, THEN conjunct2]
    show "(\<exists>x \<in> set (fallback_issues c).
               get_field x ''severity'' = Some (JStr ''low'') \<and>
               get_field x ''title'' = Some (JStr ''Non-descriptive Variable Name'') \<and>
               get_field x ''line'' = Some (JInt (int k + 1))) \<and>
            ((\<exists>x \<in> set (returned_issues (generate_fallback_review c lang)).
                get_field x ''severity'' = Some (JStr ''low'') \<and>
                get_field x ''title'' = Some (JStr ''Non-descriptive Variable Name'') \<and>
                get_field x ''line'' = Some (JInt (int k + 1))) \<longleftrightarrow>
             length (issues_after_lines c k) +
               (if sublist ''TODO'' ?l \<or> sublist ''FIXME'' ?l then 1 else 0) +
               (if re_search debug_call_at False ?l then 1 else 0) < 10)"
      by (rule conjI)
  qed
  from a pat have a': "(\<exists>x \<in> set (fallback_issues c).
             get_field x ''title'' = Some (JStr ''Non-descriptive Variable Name'') \<and>
             get_field x ''line'' = Some (JInt (int k + 1))) \<longleftrightarrow>
           ?pat \<and> \<not> sublist ''for'' ?l"
    by (simp only:)
  from a' b returned_issues_fallback [of c lang] show ?thesis
    by (intro conjI)
qed

text \<open>C9 on the one-line text \<open>    n = compute()\<close>: the issue of line 1 is returned.\<close>

theorem short_variable_line_emits_issue_witness:
  "0 < length (split_newline ''    n = compute()'') \<and>
   split_newline ''    n = compute()'' ! 0 = ''    '' @ CHR ''n'' # '' '' @ CHR ''='' # '' compute()'' \<and>
   \<not> is_word (last ''    '') \<and>
   is_lower (CHR ''n'') \<and>
   list_all is_space '' '' \<and>
   \<not> sublist ''for'' (split_newline ''    n = compute()'' ! 0) \<and>
   length (issues_after_lines ''    n = compute()'' 0) +
     (if sublist ''TODO'' (split_newline ''    n = compute()'' ! 0) \<or>
         sublist ''FIXME'' (split_newline ''    n = compute()'' ! 0) then 1 else 0) +
     (if re_search debug_call_at False (split_newline ''    n = compute()'' ! 0) then 1 else 0) < 10 \<and>
   (\<exists>x \<in> set (returned_issues (generate_fallback_review ''    n = compute()'' ''python'')).
      get_field x ''severity'' = Some (JStr ''low'') \<and>
      get_field x ''title'' = Some (JStr ''Non-descriptive Variable Name'') \<and>
      get_field x ''line'' = Some (JInt 1))"
proof -
  have h1: "0 < length (split_newline ''    n = compute()'')"
    and h2: "split_newline ''    n = compute()'' ! 0 =
      ''    '' @ CHR ''n'' # '' '' @ CHR ''='' # '' compute()''"
    and h3: "\<not> is_word (last ''    '')"
    and h4: "is_lower (CHR ''n'')"
    and h5: "list_all is_space '' ''"
    and h6: "\<not> sublist ''for'' (split_newline ''    n = compute()'' ! 0)"
    and h7: "length (issues_after_lines ''    n = compute()'' 0) +
     (if sublist ''TODO'' (split_newline ''    n = compute()'' ! 0) \<or>
         sublist ''FIXME'' (split_newline ''    n = compute()'' ! 0) then 1 else 0) +
     (if re_search debug_call_at False (split_newline ''    n = compute()'' ! 0) then 1 else 0) < 10"
    by code_simp+
  from h3 have h3': "''    '' = [] \<or> \<not> is_word (last ''    '')" ..
  from h5 have h5': "\<forall>w \<in> set '' ''. is_space w" by (simp add: list_all_iff)
  from h2 h3' h4 h5' have pat: "\<exists>pre v ws rest.
      split_newline ''    n = compute()'' ! 0 = pre @ v # ws @ CHR ''='' # rest \<and>
      (pre = [] \<or> \<not> is_word (last pre)) \<and> is_lower v \<and> (\<forall>w \<in> set ws. is_space w)"
    by (intro exI [of _ "''    ''"] exI [of _ "CHR ''n''"] exI [of _ "'' ''"]
        exI [of _ "'' compute()''"] conjI)
  note short_variable_line_emits_issue [OF h1, of "''python''",
      THEN conjunct2, THEN conjunct1, THEN mp, OF conjI [OF pat h6],
      THEN conjunct2, THEN iffD2, OF h7]
  then have "\<exists>x \<in> set (returned_issues (generate_fallback_review ''    n = compute()'' ''python'')).
      get_field x ''severity'' = Some (JStr ''low'') \<and>
      get_field x ''title'' = Some (JStr ''Non-descriptive Variable Name'') \<and>
      get_field x ''line'' = Some (JInt 1)"
    by simp
  with h1 h2 h3 h4 h5 h6 h7 show ?thesis by (intro conjI)
qed

section \<open>Fallback of the generative analyzer\<close>

lemma json_match_None_iff:
  "json_match content = None \<longleftrightarrow> \<not> (\<exists>a b c. content = a @ ''{'' @ b @ ''}'' @ c)"
proof
  assume n: "json_match content = None"
  show "\<not> (\<exists>a b c. content = a @ ''{'' @ b @ ''}'' @ c)"
  proof
    assume "\<exists>a b c. content = a @ ''{'' @ b @ ''}'' @ c"
    then obtain a b c where eq: "content = a @ ''{'' @ b @ ''}'' @ c" by blast
    define p where "p = takeWhile (\<lambda>x. x \<noteq> CHR ''{'') a"
    show False
    proof (cases "CHR ''{'' \<in> set a")
      case True
      then obtain a1 a2 where a: "a = a1 @ CHR ''{'' # a2" and "CHR ''{'' \<notin> set a1"
        by (meson split_list_first)
      then have "dropWhile (\<lambda>x. x \<noteq> CHR ''{'') content = CHR ''{'' # a2 @ ''{'' @ b @ ''}'' @ c"
        by (auto simp: eq dropWhile_append3)
      with n show False by (simp add: json_match_def)
    next
      case False
      then have "dropWhile (\<lambda>x. x \<noteq> CHR ''{'') content = CHR ''{'' # b @ ''}'' @ c"
        by (auto simp: eq dropWhile_append3)
      with n show False by (simp add: json_match_def)
    qed
  qed
next
  assume no: "\<not> (\<exists>a b c. content = a @ ''{'' @ b @ ''}'' @ c)"
  define t where "t = dropWhile (\<lambda>x. x \<noteq> CHR ''{'') content"
  show "json_match content = None"
  proof (rule ccontr)
    assume "json_match content \<noteq> None"
    then have t: "t \<noteq> []" and cl: "CHR ''}'' \<in> set (tl t)"
      by (auto simp: json_match_def t_def Let_def split: if_splits)
    from t have "hd t = CHR ''{''"
      unfolding t_def by (metis (mono_tags, lifting) hd_dropWhile)
    with t obtain t' where t': "t = CHR ''{'' # t'" by (cases t) auto
    with cl obtain b c where "t' = b @ CHR ''}'' # c" by (auto dest: split_list)
    with t' have "content = takeWhile (\<lambda>x. x \<noteq> CHR ''{'') content @ ''{'' @ b @ ''}'' @ c"
      unfolding t_def by (metis append_Cons append_Nil takeWhile_dropWhile_id)
    with no show False by blast
  qed
qed

text \<open>
  C2: for every code text and language tag, when the completion call raises, or the
  response has no opening brace with a closing brace behind it, or the decoder raises on
  the matched text, the generative analyzer returns the output of the fallback analyzer
  on the same code and language. The result is a payload: the analyzer raises nothing.
\<close>

theorem llm_failure_falls_back:
  assumes "outcome = CallRaised \<or>
     (\<exists>content. outcome = ResponseContent content \<and>
        ((\<not> (\<exists>a b c. content = a @ ''{'' @ b @ ''}'' @ c)) \<or>
         (\<exists>m. json_match content = Some m \<and> loads m = None)))"
  shows "generate_llm_review loads outcome c lang = generate_fallback_review c lang"
proof -
  from assms have "llm_try loads outcome = Inl ServiceError \<or>
      llm_try loads outcome = Inl ValueError \<or> llm_try loads outcome = Inl JSONDecodeError"
  proof (elim disjE exE conjE)
    assume "outcome = CallRaised"
    then show ?thesis by (simp add: llm_try_def)
  next
    fix content
    assume "outcome = ResponseContent content"
      and "\<not> (\<exists>a b c. content = a @ ''{'' @ b @ ''}'' @ c)"
    then show ?thesis using json_match_None_iff [of content] by (simp add: llm_try_def)
  next
    fix content m
    assume "outcome = ResponseContent content" and "json_match content = Some m"
      and "loads m = None"
    then show ?thesis by (simp add: llm_try_def)
  qed
  then show ?thesis by (auto simp: generate_llm_review_def)
qed

text \<open>
  C2 on the three failures: a call that raises, a response without braces, and a
  response whose braces hold what the decoder rejects.
\<close>

theorem llm_failure_falls_back_witness:
  "generate_llm_review (\<lambda>s. None) CallRaised ''x = 1'' ''python'' =
     generate_fallback_review ''x = 1'' ''python'' \<and>
   generate_llm_review (\<lambda>s. None) (ResponseContent ''Sorry, no review.'') ''x = 1'' ''python'' =
     generate_fallback_review ''x = 1'' ''python'' \<and>
   json_match ''Review: {score: high} done'' = Some ''{score: high}'' \<and>
   generate_llm_review (\<lambda>s. None) (ResponseContent ''Review: {score: high} done'') ''x = 1''
       ''python'' =
     generate_fallback_review ''x = 1'' ''python''"
proof -
  have n: "json_match ''Sorry, no review.'' = None"
    and m: "json_match ''Review: {score: high} done'' = Some ''{score: high}''"
    by code_simp+
  from n have n': "\<not> (\<exists>a b c. ''Sorry, no review.'' = a @ ''{'' @ b @ ''}'' @ c)"
    by (rule json_match_None_iff [THEN iffD1])
  have "generate_llm_review (\<lambda>s. None) CallRaised ''x = 1'' ''python'' =
     generate_fallback_review ''x = 1'' ''python''"
    by (rule llm_failure_falls_back) simp
  moreover have "generate_llm_review (\<lambda>s. None) (ResponseContent ''Sorry, no review.'')
      ''x = 1'' ''python'' = generate_fallback_review ''x = 1'' ''python''"
    using n' by (intro llm_failure_falls_back) blast
  moreover have "generate_llm_review (\<lambda>s. None)
      (ResponseContent ''Review: {score: high} done'') ''x = 1'' ''python'' =
      generate_fallback_review ''x = 1'' ''python''"
    using m by (intro llm_failure_falls_back) blast
  ultimately show ?thesis using m by (simp only: simp_thms)
qed

section \<open>Review assembler\<close>

lemma make_issue_id: "make_issue H idx d = Inr i \<Longrightarrow> issue_id i = idx"
  by (auto simp: make_issue_def and_then_def split: sum.splits)

lemma format_issues_result:
  "format_issues H idx xs acc = Inr r \<Longrightarrow>
     \<exists>new. r = acc @ new \<and>
       list_all2 (\<lambda>x i. \<exists>d. x = JObj d \<and> make_issue H (issue_id i) d = Inr i) xs new \<and>
       map issue_id new = map (\<lambda>j. idx + int j) [0..<length xs]"
proof (induction xs arbitrary: idx acc)
  case Nil
  then show ?case by simp
next
  case (Cons x xs)
  from Cons.prems obtain d i where x: "x = JObj d" and mk: "make_issue H idx d = Inr i"
    and rest: "format_issues H (idx + 1) xs (acc @ [i]) = Inr r"
    by (auto simp: and_then_def split: json.splits sum.splits)
  from Cons.IH [OF rest] obtain new where r: "r = (acc @ [i]) @ new"
    and all: "list_all2 (\<lambda>x i. \<exists>d. x = JObj d \<and> make_issue H (issue_id i) d = Inr i) xs new"
    and ids: "map issue_id new = map (\<lambda>j. idx + 1 + int j) [0..<length xs]"
    by blast
  have "map (\<lambda>j. idx + int j) [0..<length (x # xs)] = idx # map (\<lambda>j. idx + 1 + int j) [0..<length xs]"
    by (simp add: upt_conv_Cons map_Suc_upt [symmetric] del: upt_Suc)
  with r all ids x mk make_issue_id [OF mk] show ?case
    by (intro exI [of _ "i # new"]) simp
qed

lemma review_code_InrD:
  assumes "review_code H outcome request db = Inr (r, db')"
  obtains d raw where
    "generate_llm_review (json_loads H) outcome (code request) (language request) = JObj d"
    "iterate (dict_get d ''issues'' (JList [])) = Inr raw"
    "format_issues H 1 raw [] = Inr (priority r)"
    "validate_int H (dict_get d ''score'' (JInt 75)) = Inr (score r)"
    "validate_str_dict H (dict_get d ''metrics'' default_metrics) = Inr (metrics r)"
    "validate_str_list H (dict_get d ''team_insights'' default_team_insights) = Inr (team_insights r)"
    "db' = db_store db (review_id r) r"
  using assms
  by (auto simp: review_code_def review_code_body_def and_then_def Let_def
      split: sum.splits json.splits)

text \<open>
  C4: for every payload from which the assembler returns a review, with \<open>N\<close> the length
  of the list it walks as the payload's issues (0 when the payload has none), the ids of
  the review's priority list are 1 to \<open>N\<close> in that order, and the issue at each position
  is the one made from the payload's item at that position.
\<close>

theorem review_ids_contiguous:
  assumes "review_code H outcome request db = Inr (r, db')"
  shows "map issue_id (priority r) =
           map int [1 ..< Suc (length (payload_issues
             (generate_llm_review (json_loads H) outcome (code request) (language request))))] \<and>
         list_all2 (\<lambda>x i. \<exists>d. x = JObj d \<and> make_issue H (issue_id i) d = Inr i)
           (payload_issues
             (generate_llm_review (json_loads H) outcome (code request) (language request)))
           (priority r)"
proof -
  from assms obtain d raw where
    p: "generate_llm_review (json_loads H) outcome (code request) (language request) = JObj d"
    and it: "iterate (dict_get d ''issues'' (JList [])) = Inr raw"
    and f: "format_issues H 1 raw [] = Inr (priority r)"
    by (rule review_code_InrD)
  from p it have pi: "payload_issues
      (generate_llm_review (json_loads H) outcome (code request) (language request)) = raw"
    by (simp add: payload_issues_def)
  from format_issues_result [OF f]
  have all: "list_all2 (\<lambda>x i. \<exists>d. x = JObj d \<and> make_issue H (issue_id i) d = Inr i) raw (priority r)"
    and ids: "map issue_id (priority r) = map (\<lambda>j. 1 + int j) [0..<length raw]"
    by auto
  have "map (\<lambda>j. 1 + int j) [0..<length raw] = map int [1..<Suc (length raw)]"
    by (simp add: map_Suc_upt [symmetric] del: upt_Suc)
  with all ids pi show ?thesis by simp
qed

text \<open>
  C4 on a response with two issues, the second one empty: a review is returned and its
  ids are 1 and 2.
\<close>

theorem review_ids_contiguous_witness:
  \<open>\<exists>r db'.
     review_code
       (plain_host (decoder_of ''{"issues": [{"title": "A"}, {}]}''
          (JObj [(''issues'', JList [JObj [(''title'', JStr ''A'')], JObj []])])))
       (ResponseContent ''{"issues": [{"title": "A"}, {}]}'') (python_request ''x = 1'') [] =
       Inr (r, db') \<and>
     map issue_id (priority r) = [1, 2] \<and>
     map title (priority r) = [''A'', ''Unknown Issue'']\<close>
proof -
  have \<open>case review_code
       (plain_host (decoder_of ''{"issues": [{"title": "A"}, {}]}''
          (JObj [(''issues'', JList [JObj [(''title'', JStr ''A'')], JObj []])])))
       (ResponseContent ''{"issues": [{"title": "A"}, {}]}'') (python_request ''x = 1'') [] of
       Inl e \<Rightarrow> False
     | Inr (r, db') \<Rightarrow> map title (priority r) = [''A'', ''Unknown Issue'']\<close>
    by code_simp
  then obtain r db' where rc: \<open>review_code
       (plain_host (decoder_of ''{"issues": [{"title": "A"}, {}]}''
          (JObj [(''issues'', JList [JObj [(''title'', JStr ''A'')], JObj []])])))
       (ResponseContent ''{"issues": [{"title": "A"}, {}]}'') (python_request ''x = 1'') [] =
       Inr (r, db')\<close>
    and t: "map title (priority r) = [''A'', ''Unknown Issue'']"
    by (auto split: sum.splits prod.splits)
  have n: \<open>length (payload_issues (generate_llm_review
       (json_loads (plain_host (decoder_of ''{"issues": [{"title": "A"}, {}]}''
          (JObj [(''issues'', JList [JObj [(''title'', JStr ''A'')], JObj []])]))))
       (ResponseContent ''{"issues": [{"title": "A"}, {}]}'')
       (code (python_request ''x = 1'')) (language (python_request ''x = 1'')))) = 2\<close>
    by code_simp
  from review_ids_contiguous [OF rc] n
  have "map issue_id (priority r) = map int [1 ..< Suc 2]"
    by simp
  then have i: "map issue_id (priority r) = [1, 2]"
    by (simp add: upt_rec)
  show ?thesis
    by (intro exI [of _ r] exI [of _ db'] conjI) (rule rc i t)+
qed

section \<open>Reviews from the fallback path\<close>

lemma make_issue_fallback:
  assumes "x = todo_issue i \<or> x = debug_issue i \<or> x = short_var_issue i \<or> x = try_issue i"
  shows "\<exists>d. x = JObj d \<and> (\<forall>idx. \<exists>iss. make_issue H idx d = Inr iss)"
  using assms
  by (elim disjE)
    (simp_all add: todo_issue_def debug_issue_def short_var_issue_def try_issue_def
      make_issue_def dict_get_def validate_str_def validate_int_def validate_bool_def
      and_then_def)

lemma fallback_issues_well_formed:
  assumes "x \<in> set (fallback_issues c)"
  shows "\<exists>d. x = JObj d \<and> (\<forall>idx. \<exists>iss. make_issue H idx d = Inr iss)"
proof -
  from assms obtain i where
    "x = todo_issue i \<or> x = debug_issue i \<or> x = short_var_issue i \<or> x = try_issue i"
    by (auto simp: in_fallback_issues in_check_line)
  then show ?thesis by (rule make_issue_fallback)
qed

lemma format_issues_total:
  assumes "\<forall>x \<in> set xs. \<exists>d. x = JObj d \<and> (\<forall>idx. \<exists>iss. make_issue H idx d = Inr iss)"
  shows "\<exists>r. format_issues H idx xs acc = Inr r"
  using assms
proof (induction xs arbitrary: idx acc)
  case Nil
  show ?case by simp
next
  case (Cons x xs)
  from Cons.prems obtain d iss where "x = JObj d" and "make_issue H idx d = Inr iss"
    by (metis list.set_intros(1))
  moreover from Cons.prems have "\<exists>r. format_issues H (idx + 1) xs (acc @ [iss]) = Inr r"
    by (intro Cons.IH) simp
  ultimately show ?case by (simp add: and_then_def)
qed

lemma complexity_score_bounds:
  "0 \<le> complexity_score (analyze_code_complexity c) \<and>
   complexity_score (analyze_code_complexity c) \<le> 100"
  by (simp add: analyze_code_complexity_def Let_def)

lemma review_code_fallback:
  assumes "llm_try (json_loads H) outcome = Inl e"
  shows "\<exists>r db'. review_code H outcome request db = Inr (r, db') \<and>
           score r = max 50 (100 - complexity_score (analyze_code_complexity (code request))) \<and>
           metrics r =
             [(''complexity'',
                if complexity_score (analyze_code_complexity (code request)) < 50
                then ''Medium'' else ''High''),
              (''maintainability'', ''Good''),
              (''security'', ''Needs Review''),
              (''performance'', ''Good'')]"
proof -
  have "\<forall>x \<in> set (take 10 (fallback_issues (code request))).
          \<exists>d. x = JObj d \<and> (\<forall>idx. \<exists>iss. make_issue H idx d = Inr iss)"
    by (blast dest: in_set_takeD intro: fallback_issues_well_formed)
  then obtain iss where
    "format_issues H 1 (take 10 (fallback_issues (code request))) [] = Inr iss"
    using format_issues_total by blast
  with assms show ?thesis
    by (simp add: review_code_def review_code_body_def generate_llm_review_def
        generate_fallback_review_def dict_get_def iterate_def and_then_def Let_def
        improvement_of_def validate_int_def validate_str_dict_def validate_str_list_def
        validate_str_def)
qed

section \<open>Score of a review\<close>

text \<open>On the fallback path a review is returned and its score lies in 50 to 100.\<close>

lemma review_score_fallback_bounded:
  assumes "llm_try (json_loads H) outcome = Inl e"
  shows "\<exists>r db'. review_code H outcome request db = Inr (r, db') \<and> 50 \<le> score r \<and> score r \<le> 100"
  using review_code_fallback [OF assms, of request db] complexity_score_bounds [of "code request"]
  by auto

text \<open>
  C1 on a response whose decoded payload has the score 150: the review is returned with
  the score 150 and the improvement \<open>+80\<close>; the score of the payload reaches the review
  without any bound.
\<close>

theorem review_score_unclamped:
  \<open>\<exists>r db'.
     review_code
       (plain_host (decoder_of ''{"score": 150}'' (JObj [(''score'', JInt 150)])))
       (ResponseContent ''{"score": 150}'') (python_request ''x = 1'') [] = Inr (r, db') \<and>
     score r = 150 \<and> improvement r = ''+80''\<close>
proof -
  have \<open>case review_code
          (plain_host (decoder_of ''{"score": 150}'' (JObj [(''score'', JInt 150)])))
          (ResponseContent ''{"score": 150}'') (python_request ''x = 1'') [] of
          Inl e \<Rightarrow> False | Inr (r, db') \<Rightarrow> score r = 150 \<and> improvement r = ''+80''\<close>
    by code_simp
  then obtain r db' where rc: \<open>review_code
          (plain_host (decoder_of ''{"score": 150}'' (JObj [(''score'', JInt 150)])))
          (ResponseContent ''{"score": 150}'') (python_request ''x = 1'') [] = Inr (r, db')\<close>
    and s: "score r = 150" and i: "improvement r = ''+80''"
    by (auto split: sum.splits prod.splits)
  show ?thesis
    by (intro exI [of _ r] exI [of _ db'] conjI) (rule rc s i)+
qed

section \<open>Metrics of a review\<close>






end
